theory Spec2Isabelle
  imports Main "HOL-Library.Word" "HOL-Library.AList"
begin

section \<open>Values of the merger: arrays, stores, exceptions\<close>

text \<open>
  The merger (\<open>src/merger.py\<close>) folds per-worker shelves of count matrices into one
  accumulator dictionary and writes the accumulated matrices into an HDF5 container.
  The producers choose the dtype of a matrix, the merger never does. The dtypes of the
  model are numpy's integer dtypes and \<open>object\<close>; an entry is the integer it stands for
  (a Python integer in an object array), and the arithmetic of an integer dtype wraps
  around in its width.
\<close>

datatype dtype = UInt8 | UInt16 | UInt32 | UInt64 | Int8 | Int16 | Int32 | Int64 | Object

datatype kind = Unsigned | Signed | PyObject

fun kind_of :: "dtype \<Rightarrow> kind" where
  "kind_of UInt8 = Unsigned"
| "kind_of UInt16 = Unsigned"
| "kind_of UInt32 = Unsigned"
| "kind_of UInt64 = Unsigned"
| "kind_of Int8 = Signed"
| "kind_of Int16 = Signed"
| "kind_of Int32 = Signed"
| "kind_of Int64 = Signed"
| "kind_of Object = PyObject"

fun bits :: "dtype \<Rightarrow> nat" where
  "bits UInt8 = 8"
| "bits UInt16 = 16"
| "bits UInt32 = 32"
| "bits UInt64 = 64"
| "bits Int8 = 8"
| "bits Int16 = 16"
| "bits Int32 = 32"
| "bits Int64 = 64"
| "bits Object = 0"

definition wrap :: "dtype \<Rightarrow> int \<Rightarrow> int" where
  "wrap dt v =
     (case kind_of dt of
        Unsigned \<Rightarrow> v mod 2 ^ bits dt
      | Signed \<Rightarrow> (v + 2 ^ (bits dt - 1)) mod 2 ^ bits dt - 2 ^ (bits dt - 1)
      | PyObject \<Rightarrow> v)"

text \<open>
  \<open>a += b\<close> on arrays is \<open>numpy.add(a, b, out=a)\<close>: the sum is taken in the dtype numpy
  promotes the two dtypes to and cast back to the dtype of \<open>a\<close> under the rule
  \<open>same_kind\<close>. The cast is refused, with UFuncTypeError (a TypeError), from a signed
  dtype to an unsigned one, from \<open>float64\<close> (to which \<open>uint64\<close> and a signed dtype
  promote) to an integer dtype, and from \<open>object\<close> to an integer dtype.
\<close>

definition can_iadd :: "dtype \<Rightarrow> dtype \<Rightarrow> bool" where
  "can_iadd a_dtype b_dtype =
     (case kind_of a_dtype of
        PyObject \<Rightarrow> True
      | Signed \<Rightarrow> kind_of b_dtype = Signed \<or> (kind_of b_dtype = Unsigned \<and> bits b_dtype < 64)
      | Unsigned \<Rightarrow> kind_of b_dtype = Unsigned)"

text \<open>A numpy array of two dimensions: its shape, its dtype and its rows.\<close>

record ndarray =
  nrows :: nat
  ncols :: nat
  dtype :: dtype
  cells :: "int list list"

definition shape :: "ndarray \<Rightarrow> nat \<times> nat" where
  "shape m = (nrows m, ncols m)"

text \<open>
  A scipy sparse matrix in coordinate form: its shape, its dtype and its (row, column,
  value) entries. \<open>toarray\<close> sums the entries that share a position, as scipy does.
\<close>

record spmatrix =
  sp_nrows :: nat
  sp_ncols :: nat
  sp_dtype :: dtype
  entries :: "(nat \<times> nat \<times> int) list"

definition toarray :: "spmatrix \<Rightarrow> ndarray" where
  "toarray s =
     \<lparr>nrows = sp_nrows s, ncols = sp_ncols s, dtype = sp_dtype s,
      cells = map (\<lambda>i. map (\<lambda>j. wrap (sp_dtype s)
                                    (sum_list (map (\<lambda>(a, b, v). v)
                                       (filter (\<lambda>(a, b, v). a = i \<and> b = j) (entries s)))))
                          [0..<sp_ncols s])
                  [0..<sp_nrows s]\<rparr>"

text \<open>
  What a shelf may hold under a key: a dense array, a sparse matrix, or an object of
  any other class, of which only the class name matters.
\<close>

datatype pyobj = NDArray ndarray | Sparse spmatrix | Other string

fun class_name :: "pyobj \<Rightarrow> string" where
  "class_name (NDArray m) = ''ndarray''"
| "class_name (Sparse s) = ''coo_matrix''"
| "class_name (Other cls) = cls"

text \<open>
  Exceptions are values. \<open>SystemExit n\<close> is \<open>sys.exit(n)\<close>; \<open>DbmError\<close> is \<open>dbm.error\<close>
  for a path; \<open>NodeError\<close> is what PyTables raises when a node name is taken.
\<close>

datatype exn =
    SystemExit int
  | TypeError
  | ValueError
  | OverflowError
  | KeyError string
  | IndexError
  | AttributeError
  | DbmError string
  | NoSuchNodeError
  | NodeError string

text \<open>
  A shelf is a dictionary from region name to object; \<open>items()\<close> walks it in the order
  of the list. The accumulator is a dictionary from region name to an array or to
  \<open>None\<close>, the sentinel of a region not yet observed; \<open>AList.update\<close> is the assignment
  \<open>d[k] = v\<close> of a Python dictionary (in place for a present key, appended otherwise).
\<close>

type_synonym shelf = "(string \<times> pyobj) list"
type_synonym contigs = "(string \<times> ndarray option) list"

definition keys :: "('k \<times> 'v) list \<Rightarrow> 'k list" where
  "keys d = map fst d"

section \<open>convert\_matrix\<close>

text \<open>
  The result is the list of lines written to the standard error stream, and the value
  returned or the exception raised.
\<close>

definition convert_matrix :: "pyobj \<Rightarrow> string list \<times> (exn + ndarray)" where
  "convert_matrix matrix =
     (let matrix = (case matrix of Sparse s \<Rightarrow> NDArray (toarray s) | _ \<Rightarrow> matrix)
      in case matrix of
           NDArray a \<Rightarrow> ([], Inr a)
         | _ \<Rightarrow> ([''Error: unrecognized data type for matrix: '' @ class_name matrix],
                 Inl (SystemExit 1)))"

section \<open>add\_contents\_to\_contigs\<close>

text \<open>
  \<open>a += b\<close> on arrays: numpy first settles the dtypes, then broadcasts \<open>b\<close> to the shape
  of \<open>a\<close>, which needs each dimension of \<open>b\<close> to be that of \<open>a\<close> or 1 and raises
  ValueError otherwise, and adds entry by entry in the dtype of \<open>a\<close>.
\<close>

definition iadd_ndarray :: "ndarray \<Rightarrow> ndarray \<Rightarrow> exn + ndarray" where
  "iadd_ndarray a b =
     (if \<not> can_iadd (dtype a) (dtype b) then Inl TypeError
      else if (nrows b = nrows a \<or> nrows b = 1) \<and> (ncols b = ncols a \<or> ncols b = 1)
      then Inr (a\<lparr>cells :=
                   map (\<lambda>i. map (\<lambda>j. wrap (dtype a)
                                       (cells a ! i ! j
                                        + cells b ! (if nrows b = 1 then 0 else i)
                                                  ! (if ncols b = 1 then 0 else j)))
                            [0..<ncols a])
                       [0..<nrows a]\<rparr>)
      else Inl ValueError)"

text \<open>
  On the sentinel, \<open>None += b\<close> is \<open>numpy.add(None, b)\<close>, which adds \<open>None\<close> to each entry
  as Python objects: the first entry raises TypeError, and an array with no entry
  gives the object array of its shape, with no entry.
\<close>

fun iadd :: "ndarray option \<Rightarrow> ndarray \<Rightarrow> exn + ndarray" where
  "iadd None b =
     (if nrows b = 0 \<or> ncols b = 0 then Inr (b\<lparr>dtype := Object\<rparr>) else Inl TypeError)"
| "iadd (Some a) b = iadd_ndarray a b"

fun add_contents_to_contigs :: "shelf \<Rightarrow> contigs \<Rightarrow> exn + contigs" where
  "add_contents_to_contigs [] contigs = Inr contigs"
| "add_contents_to_contigs ((contig, matrix) # dat) contigs =
     (case snd (convert_matrix matrix) of
        Inl e \<Rightarrow> Inl e
      | Inr matrix \<Rightarrow>
          if contig \<notin> set (keys contigs)
          then add_contents_to_contigs dat (AList.update contig (Some matrix) contigs)
          else (case map_of contigs contig of
                  None \<Rightarrow> Inl (KeyError contig)
                | Some old \<Rightarrow>
                    (case iadd old matrix of
                       Inl e \<Rightarrow> Inl e
                     | Inr s \<Rightarrow> add_contents_to_contigs dat (AList.update contig (Some s) contigs))))"

text \<open>
  Two stores merged in turn into an empty accumulator, as the loaders do for a list
  of two shelves. A shelf hands out a fresh array on every read, so the in-place
  addition never reaches back into a store.
\<close>

definition merge_two :: "shelf \<Rightarrow> shelf \<Rightarrow> exn + contigs" where
  "merge_two S1 S2 =
     (case add_contents_to_contigs S1 [] of
        Inl e \<Rightarrow> Inl e
      | Inr contigs \<Rightarrow> add_contents_to_contigs S2 contigs)"

subsection \<open>Producer stores, shape and dtype consistency\<close>

text \<open>
  The array that \<open>convert_matrix\<close> makes of an object (the empty array where it
  raises), whether an object is a matrix without any entry, the sum of two arrays of
  one shape in the dtype of the first, and what a merge does to the entry of a region.
\<close>

definition the_dense :: "pyobj \<Rightarrow> ndarray" where
  "the_dense obj =
     (case snd (convert_matrix obj) of
        Inr m \<Rightarrow> m
      | Inl e \<Rightarrow> \<lparr>nrows = 0, ncols = 0, dtype = Object, cells = []\<rparr>)"

definition is_matrix :: "pyobj \<Rightarrow> bool" where
  "is_matrix obj = (case snd (convert_matrix obj) of Inr m \<Rightarrow> True | Inl e \<Rightarrow> False)"

definition no_entry :: "pyobj \<Rightarrow> bool" where
  "no_entry obj = (is_matrix obj \<and> (nrows (the_dense obj) = 0 \<or> ncols (the_dense obj) = 0))"

definition same_shape :: "pyobj \<Rightarrow> pyobj \<Rightarrow> bool" where
  "same_shape x y = (shape (the_dense x) = shape (the_dense y))"

definition same_dtype :: "pyobj \<Rightarrow> pyobj \<Rightarrow> bool" where
  "same_dtype x y = (dtype (the_dense x) = dtype (the_dense y))"

definition producer_store :: "shelf \<Rightarrow> bool" where
  "producer_store S = (distinct (keys S) \<and> list_all (\<lambda>(r, obj). is_matrix obj) S)"

definition shape_consistent :: "shelf \<Rightarrow> shelf \<Rightarrow> bool" where
  "shape_consistent S1 S2 =
     list_all (\<lambda>(r1, x). list_all (\<lambda>(r2, y). r1 \<noteq> r2 \<or> same_shape x y) S2) S1"

definition dtype_consistent :: "shelf \<Rightarrow> shelf \<Rightarrow> bool" where
  "dtype_consistent S1 S2 =
     list_all (\<lambda>(r1, x). list_all (\<lambda>(r2, y). r1 \<noteq> r2 \<or> same_dtype x y) S2) S1"

definition ew_add :: "ndarray \<Rightarrow> ndarray \<Rightarrow> ndarray" where
  "ew_add a b =
     a\<lparr>cells := map (\<lambda>i. map (\<lambda>j. wrap (dtype a) (cells a ! i ! j + cells b ! i ! j))
                          [0..<ncols a])
                     [0..<nrows a]\<rparr>"

definition folded :: "ndarray option option \<Rightarrow> ndarray \<Rightarrow> ndarray option option" where
  "folded old m =
     (case old of
        None \<Rightarrow> Some (Some m)
      | Some None \<Rightarrow> None
      | Some (Some a) \<Rightarrow> Some (Some (ew_add a m)))"

section \<open>Shelves on disk and the batch loaders\<close>

text \<open>
  The file system maps a path to a shelf or to a file that is no dbm database.
  \<open>shelve.open(path, flag="r")\<close> raises \<open>dbm.error\<close> on a missing path;
  \<open>shelve.open(path)\<close> has the default flag \<open>"c"\<close>, which creates an empty database
  where none exists. Both raise \<open>dbm.error\<close> on a file that is not a database.
\<close>

datatype dbfile = Shelf shelf | Unreadable

type_synonym filesystem = "(string \<times> dbfile) list"

datatype flag = Flag_r | Flag_c

definition shelve_open :: "flag \<Rightarrow> string \<Rightarrow> filesystem \<Rightarrow> exn + (shelf \<times> filesystem)" where
  "shelve_open flg path fs =
     (case map_of fs path of
        Some (Shelf dat) \<Rightarrow> Inr (dat, fs)
      | Some Unreadable \<Rightarrow> Inl (DbmError path)
      | None \<Rightarrow>
          (case flg of
             Flag_r \<Rightarrow> Inl (DbmError path)
           | Flag_c \<Rightarrow> Inr ([], AList.update path (Shelf []) fs)))"

definition shelf_getitem :: "shelf \<Rightarrow> string \<Rightarrow> exn + pyobj" where
  "shelf_getitem dat key = (case map_of dat key of None \<Rightarrow> Inl (KeyError key) | Some v \<Rightarrow> Inr v)"

text \<open>
  The loaders return the outcome together with the file system they leave behind.
  The progress lines on the standard output are not modelled.
\<close>

fun load_matrices_post :: "string list \<Rightarrow> contigs \<Rightarrow> filesystem
                           \<Rightarrow> (exn + contigs) \<times> filesystem" where
  "load_matrices_post [] contigs fs = (Inr contigs, fs)"
| "load_matrices_post (infile # infiles) contigs fs =
     (case shelve_open Flag_c infile fs of
        Inl e \<Rightarrow> (Inl e, fs)
      | Inr (dat, fs') \<Rightarrow>
          (case add_contents_to_contigs dat contigs of
             Inl e \<Rightarrow> (Inl e, fs')
           | Inr contigs' \<Rightarrow> load_matrices_post infiles contigs' fs'))"

text \<open>
  The body of the \<open>with\<close> block of \<open>load_matrices_per_contig\<close>: the matrix read from
  one shelf, or \<open>None\<close>. The subscript is the string literal \<open>"contig_name"\<close>, as the
  source has it, not the variable of that name.
\<close>

definition read_contig_matrix :: "string \<Rightarrow> shelf \<Rightarrow> exn + ndarray option" where
  "read_contig_matrix contig_name dat =
     (if contig_name \<in> set (keys dat)
      then (case shelf_getitem dat ''contig_name'' of
              Inl e \<Rightarrow> Inl e
            | Inr obj \<Rightarrow>
                (case snd (convert_matrix obj) of
                   Inl e \<Rightarrow> Inl e
                 | Inr matrix \<Rightarrow> Inr (Some matrix)))
      else Inr None)"

fun per_contig_loop :: "string \<Rightarrow> string list \<Rightarrow> contigs \<Rightarrow> filesystem
                        \<Rightarrow> (exn + contigs) \<times> filesystem" where
  "per_contig_loop contig_name [] contig fs = (Inr contig, fs)"
| "per_contig_loop contig_name (infile # infiles) contig fs =
     (case shelve_open Flag_r infile fs of
        Inl e \<Rightarrow> (Inl e, fs)
      | Inr (dat, fs') \<Rightarrow>
          (case read_contig_matrix contig_name dat of
             Inl e \<Rightarrow> (Inl e, fs')
           | Inr None \<Rightarrow> per_contig_loop contig_name infiles contig fs'
           | Inr (Some matrix) \<Rightarrow>
               (case map_of contig contig_name of
                  None \<Rightarrow> (Inl (KeyError contig_name), fs')
                | Some None \<Rightarrow>
                    per_contig_loop contig_name infiles
                      (AList.update contig_name (Some matrix) contig) fs'
                | Some (Some a) \<Rightarrow>
                    (case iadd_ndarray a matrix of
                       Inl e \<Rightarrow> (Inl e, fs')
                     | Inr s \<Rightarrow>
                         per_contig_loop contig_name infiles
                           (AList.update contig_name (Some s) contig) fs'))))"

definition load_matrices_per_contig :: "string list \<Rightarrow> contigs \<Rightarrow> filesystem
                                       \<Rightarrow> (exn + contigs) \<times> filesystem" where
  "load_matrices_per_contig infiles contig fs =
     (case keys contig of
        [] \<Rightarrow> (Inl IndexError, fs)
      | contig_name # others \<Rightarrow> per_contig_loop contig_name infiles contig fs)"

section \<open>The live loaders\<close>

text \<open>
  What a poll round observes of a path: whether \<open>os.path.isfile\<close> holds, the seconds
  since the last modification (\<open>time.time() - os.path.getmtime(infile)\<close>), and what
  \<open>shelve.open(infile, flag="r")\<close> gives. The world gives the observation of each path
  in each round; rounds are counted from 0 by the field \<open>rounds\<close> of the state, which
  the source does not have and which only selects the observation.
\<close>

record probe =
  isfile :: bool
  age :: int
  opens :: "exn + shelf"

type_synonym world = "nat \<Rightarrow> string \<Rightarrow> probe"

text \<open>
  The trace of a run: \<open>Opened n p\<close> is the call of \<open>shelve.open\<close> on \<open>p\<close> in round \<open>n\<close>,
  \<open>OpenFailed n p\<close> the \<open>dbm.error\<close> caught and reported for it, \<open>Loaded n p\<close> its merge
  into the accumulator followed by the close and the entry into the processed set, and
  \<open>Sleep s\<close> the call \<open>time.sleep(s)\<close>.
\<close>

datatype event = Opened nat string | OpenFailed nat string | Loaded nat string | Sleep nat

record live_state =
  fileset :: "string list"
  processed_infiles :: "string list"
  acc :: contigs
  rounds :: nat
  log :: "event list"

datatype outcome = Returned contigs | Raised exn | Polling

fun is_dbm_error :: "exn \<Rightarrow> bool" where
  "is_dbm_error (DbmError p) = True"
| "is_dbm_error e = False"

text \<open>
  The \<open>for\<close> loop of one round over the paths still to visit. The result is the
  exception that left the loop, if any, and the state reached.
\<close>

fun poll_files :: "(shelf \<Rightarrow> contigs \<Rightarrow> exn + contigs) \<Rightarrow> world \<Rightarrow> nat
                   \<Rightarrow> string list \<Rightarrow> live_state \<Rightarrow> exn option \<times> live_state" where
  "poll_files merge w n [] st = (None, st)"
| "poll_files merge w n (infile # rest) st =
     (if isfile (w n infile) \<and> 300 < age (w n infile)
      then (case opens (w n infile) of
              Inl err \<Rightarrow>
                if is_dbm_error err
                then poll_files merge w n rest
                       (st\<lparr>log := log st @ [Opened n infile, OpenFailed n infile]\<rparr>)
                else (Some err, st\<lparr>log := log st @ [Opened n infile]\<rparr>)
            | Inr dat \<Rightarrow>
                (case merge dat (acc st) of
                   Inl e \<Rightarrow> (Some e, st\<lparr>log := log st @ [Opened n infile]\<rparr>)
                 | Inr contigs \<Rightarrow>
                     poll_files merge w n rest
                       (st\<lparr>acc := contigs,
                           processed_infiles := List.insert infile (processed_infiles st),
                           log := log st @ [Opened n infile, Loaded n infile]\<rparr>)))
      else poll_files merge w n rest st)"

text \<open>
  The \<open>while\<close> loop. It has no bound in the source, so the model takes the number of
  rounds it may still run; \<open>Polling\<close> is the run that has not returned within them.
\<close>

fun live_loop :: "(shelf \<Rightarrow> contigs \<Rightarrow> exn + contigs) \<Rightarrow> world \<Rightarrow> nat
                  \<Rightarrow> live_state \<Rightarrow> live_state \<times> outcome" where
  "live_loop merge w 0 st =
     (if fileset st = [] then (st, Returned (acc st)) else (st, Polling))"
| "live_loop merge w (Suc fuel) st =
     (if fileset st = [] then (st, Returned (acc st))
      else (case poll_files merge w (rounds st) (fileset st) st of
              (Some e, st') \<Rightarrow> (st', Raised e)
            | (None, st') \<Rightarrow>
                live_loop merge w fuel
                  (st'\<lparr>fileset := filter (\<lambda>p. p \<notin> set (processed_infiles st')) (fileset st'),
                       rounds := Suc (rounds st'),
                       log := log st' @ [Sleep 30]\<rparr>)))"

definition init_live :: "string list \<Rightarrow> contigs \<Rightarrow> live_state" where
  "init_live infiles contigs =
     \<lparr>fileset = remdups infiles, processed_infiles = [], acc = contigs, rounds = 0, log = []\<rparr>"

definition load_matrices_live :: "nat \<Rightarrow> world \<Rightarrow> string list \<Rightarrow> contigs
                                  \<Rightarrow> live_state \<times> outcome" where
  "load_matrices_live fuel w infiles contigs =
     live_loop add_contents_to_contigs w fuel (init_live infiles contigs)"

definition merge_if_present :: "string \<Rightarrow> shelf \<Rightarrow> contigs \<Rightarrow> exn + contigs" where
  "merge_if_present contig_name dat contig =
     (if contig_name \<in> set (keys dat) then add_contents_to_contigs dat contig else Inr contig)"

definition load_matrices_per_contig_live :: "nat \<Rightarrow> world \<Rightarrow> string list
                                             \<Rightarrow> contigs
                                             \<Rightarrow> live_state \<times> outcome" where
  "load_matrices_per_contig_live fuel w infiles contig =
     (case keys contig of
        [] \<Rightarrow> (init_live [] contig, Raised IndexError)
      | contig_name # others \<Rightarrow>
          live_loop (merge_if_present contig_name) w fuel (init_live infiles contig))"

text \<open>Readings of a trace.\<close>

fun opened_paths :: "event list \<Rightarrow> string list" where
  "opened_paths [] = []"
| "opened_paths (Opened n p # es) = p # opened_paths es"
| "opened_paths (e # es) = opened_paths es"

fun loaded_paths :: "event list \<Rightarrow> string list" where
  "loaded_paths [] = []"
| "loaded_paths (Loaded n p # es) = p # loaded_paths es"
| "loaded_paths (e # es) = loaded_paths es"

fun sleeps :: "event list \<Rightarrow> nat list" where
  "sleeps [] = []"
| "sleeps (Sleep s # es) = s # sleeps es"
| "sleeps (e # es) = sleeps es"

text \<open>No path is opened again after the event that loaded it.\<close>

fun no_reread :: "event list \<Rightarrow> bool" where
  "no_reread [] = True"
| "no_reread (Loaded n p # es) = (p \<notin> set (opened_paths es) \<and> no_reread es)"
| "no_reread (e # es) = no_reread es"

section \<open>The output container\<close>

text \<open>
  A compressed array of atom UInt32 and three dimensions, and an HDF5 file with the
  one group \<open>/depthAndStarts_wssd\<close> (\<open>None\<close> while the group does not exist) holding
  arrays by name. \<open>dirty\<close> says that the file has changes not yet flushed. PyTables is
  taken as the spec takes it, as primitives: a name already taken in the group raises
  NodeError, a shape with a dimension 0 raises ValueError, a new array is filled with
  the atom's default 0, and an assignment to a slice converts the value to the atom
  and broadcasts it as numpy does.
\<close>

record carray =
  dims :: "nat \<times> nat \<times> nat"
  items :: "32 word list list list"

record h5file =
  group :: "(string \<times> carray) list option"
  dirty :: bool

definition zeros :: "nat \<times> nat \<times> nat \<Rightarrow> carray" where
  "zeros d = (case d of (d1, d2, d3) \<Rightarrow>
                \<lparr>dims = d, items = replicate d1 (replicate d2 (replicate d3 0))\<rparr>)"

definition has_zero :: "nat \<times> nat \<times> nat \<Rightarrow> bool" where
  "has_zero d = (case d of (d1, d2, d3) \<Rightarrow> d1 = 0 \<or> d2 = 0 \<or> d3 = 0)"

definition ensure_group :: "h5file \<Rightarrow> h5file" where
  "ensure_group fout =
     (case group fout of
        None \<Rightarrow> fout\<lparr>group := Some [], dirty := True\<rparr>
      | Some nodes \<Rightarrow> fout)"

definition create_carray :: "string \<Rightarrow> nat \<times> nat \<times> nat \<Rightarrow> h5file \<Rightarrow> exn + h5file" where
  "create_carray name d fout =
     (case group fout of
        None \<Rightarrow> Inl NoSuchNodeError
      | Some nodes \<Rightarrow>
          if name \<in> set (keys nodes) then Inl (NodeError name)
          else if has_zero d then Inl ValueError
          else Inr (fout\<lparr>group := Some (nodes @ [(name, zeros d)]), dirty := True\<rparr>))"





definition flush :: "h5file \<Rightarrow> h5file" where
  "flush fout = fout\<lparr>dirty := False\<rparr>"

text \<open>\<open>matrix.T\<close>, and the column slice \<open>m[:, lo:hi]\<close> with Python's clamping.\<close>

definition ndarray_T :: "ndarray \<Rightarrow> ndarray" where
  "ndarray_T m =
     m\<lparr>nrows := ncols m, ncols := nrows m,
       cells := map (\<lambda>j. map (\<lambda>i. cells m ! i ! j) [0..<nrows m]) [0..<ncols m]\<rparr>"


section \<open>write\_to\_h5 and write\_wssd\_to\_h5\<close>



text \<open>
  \<open>write_wssd_to_h5\<close> takes the first node of the input container's group. Its last
  assignment, \<open>carray_empty = matrix\<close>, binds the local name to the input array and
  writes nothing; the model keeps it as the binding it is.
\<close>

definition write_wssd_to_h5 :: "h5file \<Rightarrow> h5file \<Rightarrow> exn + h5file" where
  "write_wssd_to_h5 wssd fout =
     (let fout = ensure_group fout
      in case group wssd of
           None \<Rightarrow> Inl NoSuchNodeError
         | Some [] \<Rightarrow> Inl IndexError
         | Some ((name, matrix) # others) \<Rightarrow>
             (case create_carray name (dims matrix) fout of
                Inl e \<Rightarrow> Inl e
              | Inr f1 \<Rightarrow> (let carray_empty = matrix in Inr (flush f1))))"

definition lookup_array :: "h5file \<Rightarrow> string \<Rightarrow> carray option" where
  "lookup_array fout name = (case group fout of None \<Rightarrow> None | Some nodes \<Rightarrow> map_of nodes name)"




section \<open>Invariants of the live loaders\<close>

text \<open>
  What holds of the state of a live run at every point: only paths seen stable were
  opened, the loaded paths are the processed set, no path was opened after it was
  loaded, and none was loaded twice.
\<close>

definition live_inv :: "world \<Rightarrow> live_state \<Rightarrow> bool" where
  "live_inv w st =
     ((\<forall>n p. Opened n p \<in> set (log st) \<longrightarrow> isfile (w n p) \<and> 300 < age (w n p)) \<and>
      set (loaded_paths (log st)) = set (processed_infiles st) \<and>
      no_reread (log st) \<and> distinct (loaded_paths (log st)))"

text \<open>
  The per-region live run that began with \<open>{r: None}\<close> and has not raised: the
  accumulator is still \<open>{r: None}\<close> and no store opened so far held the region.
\<close>

definition unseen :: "world \<Rightarrow> string \<Rightarrow> live_state \<Rightarrow> bool" where
  "unseen w r st =
     (acc st = [(r, None)] \<and>
      (\<forall>n p dat. Opened n p \<in> set (log st) \<and> opens (w n p) = Inr dat \<longrightarrow> r \<notin> set (keys dat)))"

section \<open>Example inputs\<close>

text \<open>
  A world in which one path is a shelf last written 301 seconds ago and every other
  path does not exist; a region matrix of shape \<open>(2, 2)\<close>; a container holding one
  finished array.
\<close>

definition only_settled :: "string \<Rightarrow> shelf \<Rightarrow> world" where
  "only_settled path dat =
     (\<lambda>n p. if p = path then \<lparr>isfile = True, age = 301, opens = Inr dat\<rparr>
            else \<lparr>isfile = False, age = 0, opens = Inl (DbmError p)\<rparr>)"

definition counts22 :: "ndarray" where
  "counts22 = \<lparr>nrows = 2, ncols = 2, dtype = UInt16, cells = [[1, 2], [3, 4]]\<rparr>"

definition finished_wssd :: h5file where
  "finished_wssd =
     \<lparr>group = Some [(''chr1'', \<lparr>dims = (1, 1, 2), items = [[[5, 7]]]\<rparr>)], dirty = False\<rparr>"

definition empty_h5 :: h5file where
  "empty_h5 = \<lparr>group = None, dirty = False\<rparr>"

section \<open>Dictionaries as association lists\<close>

lemma keys_update: "set (keys (AList.update k v al)) = insert k (set (keys al))"
  by (induction al) (auto simp: keys_def)

lemma map_of_update: "map_of (AList.update k v al) = (map_of al)(k \<mapsto> v)"
  by (rule update_conv')

lemma in_keys_map_of: "k \<in> set (keys al) \<longleftrightarrow> map_of al k \<noteq> None"
  by (induction al) (auto simp: keys_def)

section \<open>Properties of convert\_matrix\<close>

lemma is_matrix_conv: "is_matrix obj \<Longrightarrow> snd (convert_matrix obj) = Inr (the_dense obj)"
  by (auto simp: is_matrix_def the_dense_def split: sum.splits)

text \<open>
  C6. \<open>convert_matrix\<close> returns a dense array for the two accepted kinds and for no
  other: a dense array comes back unchanged and a sparse matrix comes back as the
  array \<open>toarray\<close> makes of it, which is what the function returns for that dense
  array itself; neither writes to the standard error stream. An object of any other
  class writes one line naming the class to the standard error stream and exits with
  status 1. The three cases are all the values of the object type.
\<close>

theorem convert_matrix_kinds:
  "convert_matrix (NDArray m) = ([], Inr m) \<and>
   convert_matrix (Sparse s) = ([], Inr (toarray s)) \<and>
   convert_matrix (Sparse s) = convert_matrix (NDArray (toarray s)) \<and>
   convert_matrix (Other cls) =
     ([''Error: unrecognized data type for matrix: '' @ cls], Inl (SystemExit 1))"
  by (simp add: convert_matrix_def)

section \<open>Properties of add\_contents\_to\_contigs\<close>

lemma can_iadd_same: "can_iadd d d"
  by (cases d) (simp_all add: can_iadd_def)

lemma iadd_ndarray_same_shape:
  "shape a = shape b \<Longrightarrow> dtype a = dtype b \<Longrightarrow> iadd_ndarray a b = Inr (ew_add a b)"
  using can_iadd_same [of "dtype b"] by (auto simp: iadd_ndarray_def shape_def ew_add_def)

lemma ew_add_commute: "shape a = shape b \<Longrightarrow> dtype a = dtype b \<Longrightarrow> ew_add a b = ew_add b a"
  by (cases a; cases b) (auto simp: ew_add_def shape_def add.commute)

text \<open>One entry of a store whose matrix fits what the accumulator holds for its region.\<close>

lemma add_contents_step:
  assumes conv: "snd (convert_matrix obj) = Inr m"
    and compat: "\<forall>v. map_of contigs r = Some v \<longrightarrow> (\<exists>a. v = Some a \<and> shape a = shape m \<and> dtype a = dtype m)"
  shows "add_contents_to_contigs ((r, obj) # S) contigs =
         add_contents_to_contigs S (AList.update r (the (folded (map_of contigs r) m)) contigs)"
proof (cases "map_of contigs r")
  case None
  then have "r \<notin> set (keys contigs)" by (simp add: in_keys_map_of)
  then show ?thesis using conv None by (simp add: folded_def)
next
  case (Some v)
  then obtain a where v: "v = Some a" and sh: "shape a = shape m" "dtype a = dtype m"
    using compat by blast
  have "r \<in> set (keys contigs)" using Some by (simp add: in_keys_map_of)
  then show ?thesis using conv Some v sh
    by (simp add: folded_def iadd_ndarray_same_shape)
qed

text \<open>
  A store of matrices that fit the accumulator merges without an exception, and each
  region of the result is the fold of what the accumulator had and what the store has.
\<close>

lemma merge_spec:
  assumes "distinct (keys S)"
    and "\<forall>(r, obj) \<in> set S. \<exists>m. snd (convert_matrix obj) = Inr m \<and>
           (\<forall>v. map_of contigs r = Some v \<longrightarrow> (\<exists>a. v = Some a \<and> shape a = shape m \<and> dtype a = dtype m))"
  shows "\<exists>res. add_contents_to_contigs S contigs = Inr res \<and>
           (\<forall>r. map_of res r = (case map_of S r of None \<Rightarrow> map_of contigs r
                                 | Some obj \<Rightarrow> folded (map_of contigs r) (the_dense obj)))"
  using assms
proof (induction S arbitrary: contigs)
  case Nil
  then show ?case by simp
next
  case (Cons p S)
  obtain r obj where p: "p = (r, obj)" by (cases p)
  from Cons.prems(2) p obtain m where conv: "snd (convert_matrix obj) = Inr m"
    and compat: "\<forall>v. map_of contigs r = Some v \<longrightarrow> (\<exists>a. v = Some a \<and> shape a = shape m \<and> dtype a = dtype m)"
    by auto
  let ?next = "AList.update r (the (folded (map_of contigs r) m)) contigs"
  have step: "add_contents_to_contigs (p # S) contigs = add_contents_to_contigs S ?next"
    unfolding p by (rule add_contents_step [OF conv compat])
  have fresh: "r \<notin> set (keys S)" and dist: "distinct (keys S)"
    using Cons.prems(1) p by (auto simp: keys_def)
  have other: "map_of ?next k = map_of contigs k" if "k \<noteq> r" for k
    using that by (simp add: map_of_update)
  have "\<forall>(k, ob) \<in> set S. \<exists>m'. snd (convert_matrix ob) = Inr m' \<and>
           (\<forall>v. map_of ?next k = Some v \<longrightarrow> (\<exists>a. v = Some a \<and> shape a = shape m' \<and> dtype a = dtype m'))"
  proof (clarify)
    fix k ob assume mem: "(k, ob) \<in> set S"
    then have "k \<noteq> r" using fresh by (force simp: keys_def)
    then show "\<exists>m'. snd (convert_matrix ob) = Inr m' \<and>
           (\<forall>v. map_of ?next k = Some v \<longrightarrow> (\<exists>a. v = Some a \<and> shape a = shape m' \<and> dtype a = dtype m'))"
      using Cons.prems(2) mem other by fastforce
  qed
  from Cons.IH [OF dist this] obtain res where
    res: "add_contents_to_contigs S ?next = Inr res"
    and spec: "\<forall>k. map_of res k = (case map_of S k of None \<Rightarrow> map_of ?next k
                                  | Some ob \<Rightarrow> folded (map_of ?next k) (the_dense ob))"
    by blast
  have notin: "map_of S r = None" using fresh by (simp add: in_keys_map_of)
  have here: "map_of ?next r = folded (map_of contigs r) m"
    using compat by (auto simp: map_of_update folded_def split: option.splits)
  have "map_of res k = (case map_of (p # S) k of None \<Rightarrow> map_of contigs k
                                  | Some ob \<Rightarrow> folded (map_of contigs k) (the_dense ob))" for k
  proof (cases "k = r")
    case True
    then show ?thesis using spec notin here conv by (simp add: p the_dense_def)
  next
    case False
    then show ?thesis using spec other [OF False] by (simp add: p split: option.splits)
  qed
  then show ?case using step res by simp
qed

lemma merge_two_spec:
  assumes s1: "producer_store S1" and s2: "producer_store S2" and sc: "shape_consistent S1 S2"
    and dc: "dtype_consistent S1 S2"
  shows "\<exists>A. merge_two S1 S2 = Inr A \<and>
           (\<forall>r. map_of A r =
              (case (map_of S1 r, map_of S2 r) of
                 (None, None) \<Rightarrow> None
               | (Some x, None) \<Rightarrow> Some (Some (the_dense x))
               | (None, Some y) \<Rightarrow> Some (Some (the_dense y))
               | (Some x, Some y) \<Rightarrow> Some (Some (ew_add (the_dense x) (the_dense y)))))"
proof -
  have d1: "distinct (keys S1)" and d2: "distinct (keys S2)"
    using s1 s2 by (auto simp: producer_store_def)
  have m1: "\<forall>(r, obj) \<in> set S1. is_matrix obj" and m2: "\<forall>(r, obj) \<in> set S2. is_matrix obj"
    using s1 s2 by (auto simp: producer_store_def list_all_iff)
  have "\<forall>(r, obj) \<in> set S1. \<exists>m. snd (convert_matrix obj) = Inr m \<and>
           (\<forall>v. map_of [] r = Some v \<longrightarrow> (\<exists>a. v = Some a \<and> shape a = shape m \<and> dtype a = dtype m))"
    using m1 by (fastforce dest: is_matrix_conv)
  from merge_spec [OF d1 this] obtain A1 where
    r1: "add_contents_to_contigs S1 [] = Inr A1"
    and a1: "\<forall>r. map_of A1 r = (case map_of S1 r of None \<Rightarrow> map_of [] r
                                  | Some obj \<Rightarrow> folded (map_of [] r) (the_dense obj))"
    by blast
  have "\<forall>(r, obj) \<in> set S2. \<exists>m. snd (convert_matrix obj) = Inr m \<and>
           (\<forall>v. map_of A1 r = Some v \<longrightarrow> (\<exists>a. v = Some a \<and> shape a = shape m \<and> dtype a = dtype m))"
  proof clarify
    fix r y assume mem: "(r, y) \<in> set S2"
    have cy: "snd (convert_matrix y) = Inr (the_dense y)"
      using m2 mem by (fastforce dest: is_matrix_conv)
    have "\<exists>a. v = Some a \<and> shape a = shape (the_dense y) \<and> dtype a = dtype (the_dense y)"
      if v: "map_of A1 r = Some v" for v
    proof (cases "map_of S1 r")
      case None
      then show ?thesis using a1 v by simp
    next
      case (Some x)
      then have "(r, x) \<in> set S1" by (rule map_of_SomeD)
      then have "same_shape x y" "same_dtype x y" using sc dc mem
        by (auto simp: shape_consistent_def dtype_consistent_def list_all_iff)
      then show ?thesis using a1 v Some by (auto simp: folded_def same_shape_def same_dtype_def)
    qed
    then show "\<exists>m. snd (convert_matrix y) = Inr m \<and>
           (\<forall>v. map_of A1 r = Some v \<longrightarrow> (\<exists>a. v = Some a \<and> shape a = shape m \<and> dtype a = dtype m))"
      using cy by blast
  qed
  from merge_spec [OF d2 this] obtain A where
    r2: "add_contents_to_contigs S2 A1 = Inr A"
    and a2: "\<forall>r. map_of A r = (case map_of S2 r of None \<Rightarrow> map_of A1 r
                                  | Some obj \<Rightarrow> folded (map_of A1 r) (the_dense obj))"
    by blast
  have "merge_two S1 S2 = Inr A" using r1 r2 by (simp add: merge_two_def)
  moreover have "\<forall>r. map_of A r =
              (case (map_of S1 r, map_of S2 r) of
                 (None, None) \<Rightarrow> None
               | (Some x, None) \<Rightarrow> Some (Some (the_dense x))
               | (None, Some y) \<Rightarrow> Some (Some (the_dense y))
               | (Some x, Some y) \<Rightarrow> Some (Some (ew_add (the_dense x) (the_dense y))))"
    using a1 a2 by (auto simp: folded_def split: option.splits)
  ultimately show ?thesis by blast
qed

lemma shape_consistent_sym: "shape_consistent S1 S2 \<Longrightarrow> shape_consistent S2 S1"
  by (fastforce simp: shape_consistent_def list_all_iff same_shape_def)

lemma dtype_consistent_sym: "dtype_consistent S1 S2 \<Longrightarrow> dtype_consistent S2 S1"
  by (fastforce simp: dtype_consistent_def list_all_iff same_dtype_def)

text \<open>
  C9 as stated fails: a store with a \<open>uint16\<close> matrix and a store with an \<open>int64\<close> matrix
  of the same shape for the same region are shape-consistent, and merging the
  \<open>uint16\<close> store first raises on the second store while the other order returns.
\<close>

theorem merge_order_matters_across_dtypes:
  "producer_store [(''chr1'', NDArray \<lparr>nrows = 1, ncols = 1, dtype = UInt16, cells = [[1]]\<rparr>)] \<and>
   producer_store [(''chr1'', NDArray \<lparr>nrows = 1, ncols = 1, dtype = Int64, cells = [[2]]\<rparr>)] \<and>
   shape_consistent
     [(''chr1'', NDArray \<lparr>nrows = 1, ncols = 1, dtype = UInt16, cells = [[1]]\<rparr>)]
     [(''chr1'', NDArray \<lparr>nrows = 1, ncols = 1, dtype = Int64, cells = [[2]]\<rparr>)] \<and>
   merge_two
     [(''chr1'', NDArray \<lparr>nrows = 1, ncols = 1, dtype = UInt16, cells = [[1]]\<rparr>)]
     [(''chr1'', NDArray \<lparr>nrows = 1, ncols = 1, dtype = Int64, cells = [[2]]\<rparr>)]
     = Inl TypeError \<and>
   merge_two
     [(''chr1'', NDArray \<lparr>nrows = 1, ncols = 1, dtype = Int64, cells = [[2]]\<rparr>)]
     [(''chr1'', NDArray \<lparr>nrows = 1, ncols = 1, dtype = UInt16, cells = [[1]]\<rparr>)]
     = Inr [(''chr1'', Some \<lparr>nrows = 1, ncols = 1, dtype = Int64, cells = [[3]]\<rparr>)]"
  by (simp add: producer_store_def shape_consistent_def same_shape_def the_dense_def is_matrix_def
      shape_def merge_two_def convert_matrix_def keys_def iadd_ndarray_def can_iadd_def wrap_def)

text \<open>
  C9 as amended. Two producer stores (dictionaries of dense or sparse matrices) whose
  matrices have the same shape and the same dtype wherever they share a region merge
  into the empty accumulator without an exception in either order, and both orders give
  every region the same accumulated matrix.
\<close>

theorem merge_order_independent:
  assumes "producer_store S1" and "producer_store S2"
    and "shape_consistent S1 S2" and "dtype_consistent S1 S2"
  shows "\<exists>A B. merge_two S1 S2 = Inr A \<and> merge_two S2 S1 = Inr B \<and>
           (\<forall>r. map_of A r = map_of B r)"
proof -
  from merge_two_spec [OF assms] obtain A where
    A: "merge_two S1 S2 = Inr A"
    and sa: "\<forall>r. map_of A r =
              (case (map_of S1 r, map_of S2 r) of
                 (None, None) \<Rightarrow> None
               | (Some x, None) \<Rightarrow> Some (Some (the_dense x))
               | (None, Some y) \<Rightarrow> Some (Some (the_dense y))
               | (Some x, Some y) \<Rightarrow> Some (Some (ew_add (the_dense x) (the_dense y))))"
    by blast
  from merge_two_spec [OF assms(2) assms(1) shape_consistent_sym [OF assms(3)]
      dtype_consistent_sym [OF assms(4)]] obtain B where
    B: "merge_two S2 S1 = Inr B"
    and sb: "\<forall>r. map_of B r =
              (case (map_of S2 r, map_of S1 r) of
                 (None, None) \<Rightarrow> None
               | (Some x, None) \<Rightarrow> Some (Some (the_dense x))
               | (None, Some y) \<Rightarrow> Some (Some (the_dense y))
               | (Some x, Some y) \<Rightarrow> Some (Some (ew_add (the_dense x) (the_dense y))))"
    by blast
  have "map_of A r = map_of B r" for r
  proof (cases "map_of S1 r"; cases "map_of S2 r")
    fix x y assume x: "map_of S1 r = Some x" and y: "map_of S2 r = Some y"
    have "(r, x) \<in> set S1" "(r, y) \<in> set S2" using x y by (auto dest: map_of_SomeD)
    then have "same_shape x y" "same_dtype x y" using assms(3,4)
      by (auto simp: shape_consistent_def dtype_consistent_def list_all_iff)
    then have "ew_add (the_dense x) (the_dense y) = ew_add (the_dense y) (the_dense x)"
      by (simp add: same_shape_def same_dtype_def ew_add_commute)
    then show ?thesis using sa sb x y by simp
  qed (use sa sb in auto)
  then show ?thesis using A B by blast
qed

text \<open>
  C9 as amended, at two stores that share the region chr1 with one shape and one
  dtype: the hypotheses hold and both orders return.
\<close>

theorem merge_order_independent_witness:
  "producer_store [(''chr1'', NDArray counts22),
                   (''chr2'', Sparse \<lparr>sp_nrows = 1, sp_ncols = 2, sp_dtype = UInt8,
                                       entries = [(0, 1, 5)]\<rparr>)] \<and>
   producer_store [(''chr1'', NDArray (ndarray_T counts22))] \<and>
   shape_consistent
     [(''chr1'', NDArray counts22),
      (''chr2'', Sparse \<lparr>sp_nrows = 1, sp_ncols = 2, sp_dtype = UInt8, entries = [(0, 1, 5)]\<rparr>)]
     [(''chr1'', NDArray (ndarray_T counts22))] \<and>
   dtype_consistent
     [(''chr1'', NDArray counts22),
      (''chr2'', Sparse \<lparr>sp_nrows = 1, sp_ncols = 2, sp_dtype = UInt8, entries = [(0, 1, 5)]\<rparr>)]
     [(''chr1'', NDArray (ndarray_T counts22))] \<and>
   (\<exists>A B. merge_two
             [(''chr1'', NDArray counts22),
              (''chr2'', Sparse \<lparr>sp_nrows = 1, sp_ncols = 2, sp_dtype = UInt8,
                                  entries = [(0, 1, 5)]\<rparr>)]
             [(''chr1'', NDArray (ndarray_T counts22))] = Inr A \<and>
          merge_two
             [(''chr1'', NDArray (ndarray_T counts22))]
             [(''chr1'', NDArray counts22),
              (''chr2'', Sparse \<lparr>sp_nrows = 1, sp_ncols = 2, sp_dtype = UInt8,
                                  entries = [(0, 1, 5)]\<rparr>)] = Inr B \<and>
          (\<forall>r. map_of A r = map_of B r))"
proof -
  let ?S1 = "[(''chr1'', NDArray counts22),
              (''chr2'', Sparse \<lparr>sp_nrows = 1, sp_ncols = 2, sp_dtype = UInt8,
                                  entries = [(0, 1, 5)]\<rparr>)]"
  let ?S2 = "[(''chr1'', NDArray (ndarray_T counts22))]"
  have h1: "producer_store ?S1"
    by (simp add: producer_store_def keys_def is_matrix_def convert_matrix_def)
  have h2: "producer_store ?S2"
    by (simp add: producer_store_def keys_def is_matrix_def convert_matrix_def)
  have h3: "shape_consistent ?S1 ?S2"
    by (simp add: shape_consistent_def same_shape_def the_dense_def convert_matrix_def shape_def
        counts22_def ndarray_T_def)
  have h4: "dtype_consistent ?S1 ?S2"
    by (simp add: dtype_consistent_def same_dtype_def the_dense_def convert_matrix_def
        counts22_def ndarray_T_def)
  from merge_order_independent [OF h1 h2 h3 h4] show ?thesis using h1 h2 h3 h4 by blast
qed

section \<open>Properties of the batch loaders\<close>

text \<open>
  A store that does not open ends the batch loader with the file system as it was;
  a path with nothing behind it is opened all the same, as a new empty store. The
  per-region loader raises on a store that holds the region and no key
  \<open>"contig_name"\<close>.
\<close>

lemma load_matrices_post_open_failure:
  "shelve_open Flag_c infile fs = Inl e \<Longrightarrow>
     load_matrices_post (infile # infiles) contigs fs = (Inl e, fs)"
  by simp

lemma load_matrices_post_missing_path:
  "map_of fs infile = None \<Longrightarrow>
     load_matrices_post [infile] contigs fs = (Inr contigs, AList.update infile (Shelf []) fs)"
  by (simp add: shelve_open_def)

lemma per_contig_literal_key_missing:
  assumes "map_of fs infile = Some (Shelf dat)" and "r \<in> set (keys dat)"
    and "''contig_name'' \<notin> set (keys dat)"
  shows "load_matrices_per_contig (infile # infiles) ((r, v) # others) fs
           = (Inl (KeyError ''contig_name''), fs)"
proof -
  have "map_of dat ''contig_name'' = None" using assms(3) by (simp add: in_keys_map_of)
  then have "read_contig_matrix r dat = Inl (KeyError ''contig_name'')"
    using assms(2) by (simp add: read_contig_matrix_def shelf_getitem_def)
  then show ?thesis using assms(1)
    by (simp add: load_matrices_per_contig_def keys_def shelve_open_def)
qed

text \<open>
  C1. The spec has the per-region loader give a region what the batch loader
  gives it. The source reads the key \<open>"contig_name"\<close>, not the region: at one store
  holding chr2, the per-region loader raises KeyError where the batch loader returns
  the store's matrix.
\<close>

theorem per_contig_reads_literal_key:
  "load_matrices_per_contig [''s1''] [(''chr2'', None)] [(''s1'', Shelf [(''chr2'', NDArray counts22)])]
     = (Inl (KeyError ''contig_name''), [(''s1'', Shelf [(''chr2'', NDArray counts22)])]) \<and>
   load_matrices_post [''s1''] [] [(''s1'', Shelf [(''chr2'', NDArray counts22)])]
     = (Inr [(''chr2'', Some counts22)], [(''s1'', Shelf [(''chr2'', NDArray counts22)])])"
  by (simp add: load_matrices_per_contig_def keys_def shelve_open_def read_contig_matrix_def
      shelf_getitem_def convert_matrix_def)

text \<open>
  C5. The spec has a path that fails to open abort the batch loader, which
  holds (second equation, with the file system untouched), and that the loader never
  creates a store, which fails: the source opens with the default flag, and at a
  missing path it creates an empty store and goes on.
\<close>

theorem load_matrices_post_creates_store:
  "load_matrices_post [''missing''] [] [] = (Inr [], [(''missing'', Shelf [])]) \<and>
   load_matrices_post [''broken'', ''s1''] []
       [(''broken'', Unreadable), (''s1'', Shelf [(''chr1'', NDArray counts22)])]
     = (Inl (DbmError ''broken''), [(''broken'', Unreadable), (''s1'', Shelf [(''chr1'', NDArray counts22)])])"
  by (simp add: shelve_open_def)

section \<open>Properties of the live loaders\<close>

lemma opened_paths_append: "opened_paths (xs @ ys) = opened_paths xs @ opened_paths ys"
  by (induction xs rule: opened_paths.induct) auto

lemma loaded_paths_append: "loaded_paths (xs @ ys) = loaded_paths xs @ loaded_paths ys"
  by (induction xs rule: loaded_paths.induct) auto

lemma sleeps_append: "sleeps (xs @ ys) = sleeps xs @ sleeps ys"
  by (induction xs rule: sleeps.induct) auto

lemma no_reread_append:
  "no_reread (xs @ ys) \<longleftrightarrow>
     no_reread xs \<and> no_reread ys \<and> set (loaded_paths xs) \<inter> set (opened_paths ys) = {}"
  by (induction xs rule: no_reread.induct) (auto simp: opened_paths_append)

lemma poll_files_frame:
  "poll_files merge w n files st = (r, st') \<Longrightarrow>
     fileset st' = fileset st \<and> rounds st' = rounds st \<and> sleeps (log st') = sleeps (log st)"
proof (induction files arbitrary: st)
  case Nil
  then show ?case by simp
next
  case (Cons infile rest)
  show ?case
  proof (cases "isfile (w n infile) \<and> 300 < age (w n infile)")
    case False
    then show ?thesis using Cons by auto
  next
    case True
    show ?thesis
    proof (cases "opens (w n infile)")
      case (Inl err)
      then show ?thesis using Cons.prems True Cons.IH
        by (cases "is_dbm_error err") (fastforce simp: sleeps_append)+
    next
      case (Inr dat)
      then show ?thesis using Cons.prems True Cons.IH
        by (cases "merge dat (acc st)") (fastforce simp: sleeps_append)+
    qed
  qed
qed

lemma live_inv_caught:
  assumes "live_inv w st" and "isfile (w n p) \<and> 300 < age (w n p)"
    and "p \<notin> set (processed_infiles st)"
  shows "live_inv w (st\<lparr>log := log st @ [Opened n p, OpenFailed n p]\<rparr>)"
    and "live_inv w (st\<lparr>log := log st @ [Opened n p]\<rparr>)"
  using assms by (auto simp: live_inv_def loaded_paths_append no_reread_append)

lemma live_inv_loaded:
  assumes "live_inv w st" and "isfile (w n p) \<and> 300 < age (w n p)"
    and "p \<notin> set (processed_infiles st)"
  shows "live_inv w (st\<lparr>acc := c, processed_infiles := List.insert p (processed_infiles st),
                        log := log st @ [Opened n p, Loaded n p]\<rparr>)"
  using assms by (auto simp: live_inv_def loaded_paths_append no_reread_append)

lemma poll_files_inv:
  assumes "poll_files merge w n files st = (r, st')"
    and "distinct files" and "set files \<inter> set (processed_infiles st) = {}" and "live_inv w st"
  shows "live_inv w st'"
  using assms
proof (induction files arbitrary: st)
  case Nil
  then show ?case by simp
next
  case (Cons infile rest)
  have fresh: "infile \<notin> set (processed_infiles st)" and dr: "distinct rest"
    and nr: "infile \<notin> set rest" and disj: "set rest \<inter> set (processed_infiles st) = {}"
    using Cons.prems by auto
  show ?case
  proof (cases "isfile (w n infile) \<and> 300 < age (w n infile)")
    case False
    then have "poll_files merge w n rest st = (r, st')" using Cons.prems(1) by auto
    then show ?thesis using Cons.IH dr disj Cons.prems(4) by blast
  next
    case True
    show ?thesis
    proof (cases "opens (w n infile)")
      case (Inl err)
      show ?thesis
      proof (cases "is_dbm_error err")
        case True
        let ?s = "st\<lparr>log := log st @ [Opened n infile, OpenFailed n infile]\<rparr>"
        have "poll_files merge w n rest ?s = (r, st')"
          using Cons.prems(1) \<open>isfile (w n infile) \<and> 300 < age (w n infile)\<close> Inl True by simp
        moreover have "live_inv w ?s"
          by (rule live_inv_caught(1) [OF Cons.prems(4) \<open>isfile (w n infile) \<and> 300 < age (w n infile)\<close> fresh])
        moreover have "set rest \<inter> set (processed_infiles ?s) = {}" using disj by simp
        ultimately show ?thesis using Cons.IH dr by blast
      next
        case False
        then have "st' = st\<lparr>log := log st @ [Opened n infile]\<rparr>"
          using Cons.prems(1) \<open>isfile (w n infile) \<and> 300 < age (w n infile)\<close> Inl by simp
        then show ?thesis
          using live_inv_caught(2) [OF Cons.prems(4) \<open>isfile (w n infile) \<and> 300 < age (w n infile)\<close> fresh]
          by simp
      qed
    next
      case (Inr dat)
      show ?thesis
      proof (cases "merge dat (acc st)")
        case (Inl e)
        then have "st' = st\<lparr>log := log st @ [Opened n infile]\<rparr>"
          using Cons.prems(1) True Inr by simp
        then show ?thesis
          using live_inv_caught(2) [OF Cons.prems(4) True fresh] by simp
      next
        case (Inr c)
        let ?s = "st\<lparr>acc := c, processed_infiles := List.insert infile (processed_infiles st),
                      log := log st @ [Opened n infile, Loaded n infile]\<rparr>"
        have "poll_files merge w n rest ?s = (r, st')"
          using Cons.prems(1) True \<open>opens (w n infile) = Inr dat\<close> Inr by simp
        moreover have "live_inv w ?s" by (rule live_inv_loaded [OF Cons.prems(4) True fresh])
        moreover have "set rest \<inter> set (processed_infiles ?s) = {}" using disj nr by simp
        ultimately show ?thesis using Cons.IH dr by blast
      qed
    qed
  qed
qed

lemma live_loop_inv:
  assumes "live_loop merge w fuel st = (st', out)"
    and "distinct (fileset st)" and "set (fileset st) \<inter> set (processed_infiles st) = {}"
    and "live_inv w st"
  shows "live_inv w st' \<and>
         ((\<forall>e. out \<noteq> Raised e) \<longrightarrow> set (fileset st') \<inter> set (processed_infiles st') = {})"
  using assms
proof (induction fuel arbitrary: st)
  case 0
  then show ?case by (auto split: if_splits)
next
  case (Suc fuel)
  show ?case
  proof (cases "fileset st = []")
    case True
    then show ?thesis using Suc.prems by auto
  next
    case False
    obtain r s where run: "poll_files merge w (rounds st) (fileset st) st = (r, s)"
      by (cases "poll_files merge w (rounds st) (fileset st) st")
    have inv: "live_inv w s" by (rule poll_files_inv [OF run Suc.prems(2,3,4)])
    have fr: "fileset s = fileset st" using poll_files_frame [OF run] by simp
    show ?thesis
    proof (cases r)
      case (Some e)
      then show ?thesis using Suc.prems(1) False run inv by auto
    next
      case None
      let ?s = "s\<lparr>fileset := filter (\<lambda>p. p \<notin> set (processed_infiles s)) (fileset s),
                   rounds := Suc (rounds s), log := log s @ [Sleep 30]\<rparr>"
      have "live_loop merge w fuel ?s = (st', out)" using Suc.prems(1) False run None by simp
      moreover have "distinct (fileset ?s)" using Suc.prems(2) fr by simp
      moreover have "set (fileset ?s) \<inter> set (processed_infiles ?s) = {}" by auto
      moreover have "live_inv w ?s"
        using inv by (auto simp: live_inv_def loaded_paths_append no_reread_append)
      ultimately show ?thesis using Suc.IH by blast
    qed
  qed
qed

text \<open>
  C7. In a run of \<open>load_matrices_live\<close>, however long it has run and however it
  ended, a path that round \<open>n\<close> saw missing or modified within the last 300 seconds
  was not opened in round \<open>n\<close>; the loaded paths are exactly the processed set, no
  path was opened again after its load, and no path was loaded twice. Unless the run
  raised, no processed path is still pending.
\<close>

theorem live_reads_stable_once:
  assumes "load_matrices_live fuel w infiles contigs = (st, out)"
  shows "(\<forall>n p. \<not> isfile (w n p) \<or> age (w n p) \<le> 300 \<longrightarrow> Opened n p \<notin> set (log st)) \<and>
         set (loaded_paths (log st)) = set (processed_infiles st) \<and>
         no_reread (log st) \<and> distinct (loaded_paths (log st)) \<and>
         ((\<forall>e. out \<noteq> Raised e) \<longrightarrow> set (fileset st) \<inter> set (processed_infiles st) = {})"
proof -
  have "live_inv w (init_live infiles contigs)" by (simp add: live_inv_def init_live_def)
  moreover have "distinct (fileset (init_live infiles contigs))" by (simp add: init_live_def)
  moreover have "set (fileset (init_live infiles contigs))
                   \<inter> set (processed_infiles (init_live infiles contigs)) = {}"
    by (simp add: init_live_def)
  ultimately have res: "live_inv w st \<and>
         ((\<forall>e. out \<noteq> Raised e) \<longrightarrow> set (fileset st) \<inter> set (processed_infiles st) = {})"
    using live_loop_inv assms unfolding load_matrices_live_def by blast
  have "Opened n p \<notin> set (log st)" if "\<not> isfile (w n p) \<or> age (w n p) \<le> 300" for n p
    using res that unfolding live_inv_def by fastforce
  then show ?thesis using res unfolding live_inv_def by blast
qed

text \<open>
  C7 at a run of two rounds over a settled shelf and a missing path: the shelf is
  loaded once in round 0, the missing path is never opened, and the run still polls.
\<close>

theorem live_reads_stable_once_witness:
  "load_matrices_live 2 (only_settled ''a'' []) [''a'', ''b''] []
     = (\<lparr>fileset = [''b''], processed_infiles = [''a''], acc = [], rounds = 2,
         log = [Opened 0 ''a'', Loaded 0 ''a'', Sleep 30, Sleep 30]\<rparr>, Polling) \<and>
   \<not> isfile (only_settled ''a'' [] 0 ''b'') \<and>
   Opened 0 ''b'' \<notin> set [Opened 0 ''a'', Loaded 0 ''a'', Sleep 30, Sleep 30] \<and>
   no_reread [Opened 0 ''a'', Loaded 0 ''a'', Sleep 30, Sleep 30] \<and>
   distinct (loaded_paths [Opened 0 ''a'', Loaded 0 ''a'', Sleep 30, Sleep 30])"
proof -
  have h: "load_matrices_live 2 (only_settled ''a'' []) [''a'', ''b''] []
     = (\<lparr>fileset = [''b''], processed_infiles = [''a''], acc = [], rounds = 2,
         log = [Opened 0 ''a'', Loaded 0 ''a'', Sleep 30, Sleep 30]\<rparr>, Polling)"
    by (simp add: load_matrices_live_def init_live_def only_settled_def numeral_2_eq_2)
  have nf: "\<not> isfile (only_settled ''a'' [] 0 ''b'')"
    by (simp add: only_settled_def)
  from live_reads_stable_once [OF h] nf show ?thesis using h by simp
qed

lemma live_loop_sleeps:
  assumes "live_loop merge w fuel st = (st', out)"
    and "sleeps (log st) = replicate (rounds st) 30"
  shows "sleeps (log st') = replicate (rounds st') 30"
  using assms
proof (induction fuel arbitrary: st)
  case 0
  then show ?case by (auto split: if_splits)
next
  case (Suc fuel)
  show ?case
  proof (cases "fileset st = []")
    case True
    then show ?thesis using Suc.prems by auto
  next
    case False
    obtain r s where run: "poll_files merge w (rounds st) (fileset st) st = (r, s)"
      by (cases "poll_files merge w (rounds st) (fileset st) st")
    note fr = poll_files_frame [OF run]
    show ?thesis
    proof (cases r)
      case (Some e)
      then show ?thesis using Suc.prems False run fr by auto
    next
      case None
      let ?s = "s\<lparr>fileset := filter (\<lambda>p. p \<notin> set (processed_infiles s)) (fileset s),
                   rounds := Suc (rounds s), log := log s @ [Sleep 30]\<rparr>"
      have "live_loop merge w fuel ?s = (st', out)" using Suc.prems(1) False run None by simp
      moreover have "sleeps (log ?s) = replicate (rounds ?s) 30"
        using fr Suc.prems(2) by (simp add: sleeps_append replicate_append_same)
      ultimately show ?thesis using Suc.IH by blast
    qed
  qed
qed

lemma live_loop_exit:
  assumes "live_loop merge w fuel st = (st', out)"
  shows "(\<forall>c. out = Returned c \<longrightarrow> fileset st' = [] \<and> c = acc st') \<and>
         (out = Polling \<longrightarrow> fileset st' \<noteq> [])"
  using assms
proof (induction fuel arbitrary: st)
  case 0
  then show ?case by (auto split: if_splits)
next
  case (Suc fuel)
  show ?case
  proof (cases "fileset st = []")
    case True
    then show ?thesis using Suc.prems by auto
  next
    case False
    obtain r s where run: "poll_files merge w (rounds st) (fileset st) st = (r, s)"
      by (cases "poll_files merge w (rounds st) (fileset st) st")
    show ?thesis
    proof (cases r)
      case (Some e)
      then show ?thesis using Suc.prems False run by auto
    next
      case None
      let ?s = "s\<lparr>fileset := filter (\<lambda>p. p \<notin> set (processed_infiles s)) (fileset s),
                   rounds := Suc (rounds s), log := log s @ [Sleep 30]\<rparr>"
      have "live_loop merge w fuel ?s = (st', out)" using Suc.prems(1) False run None by simp
      from Suc.IH [OF this] show ?thesis .
    qed
  qed
qed

lemma live_loop_last_sleep:
  assumes "live_loop merge w fuel st = (st', Returned c)"
  shows "log st' = log st \<or> (log st' \<noteq> [] \<and> last (log st') = Sleep 30)"
    and "fileset st \<noteq> [] \<Longrightarrow> log st' \<noteq> [] \<and> last (log st') = Sleep 30"
  using assms
proof (induction fuel arbitrary: st)
  case 0
  { case 1 then show ?case by (simp split: if_splits) }
  { case 2 then show ?case by (simp split: if_splits) }
next
  case (Suc fuel)
  have main: "log st' \<noteq> [] \<and> last (log st') = Sleep 30" if ne: "fileset st \<noteq> []"
    and run0: "live_loop merge w (Suc fuel) st = (st', Returned c)" for st
  proof -
    obtain r s where run: "poll_files merge w (rounds st) (fileset st) st = (r, s)"
      by (cases "poll_files merge w (rounds st) (fileset st) st")
    have r: "r = None" using run0 ne run by (cases r) auto
    let ?s = "s\<lparr>fileset := filter (\<lambda>p. p \<notin> set (processed_infiles s)) (fileset s),
                 rounds := Suc (rounds s), log := log s @ [Sleep 30]\<rparr>"
    have "live_loop merge w fuel ?s = (st', Returned c)" using run0 ne run r by simp
    from Suc.IH(1) [OF this] show ?thesis by auto
  qed
  { case 1
    show ?case
    proof (cases "fileset st = []")
      case True
      then show ?thesis using 1 by simp
    next
      case False
      then show ?thesis using main 1 by blast
    qed }
  { case 2 then show ?case using main by blast }
qed

text \<open>
  C8 as stated fails: over one settled shelf the run loads it in round 0, the pending
  set becomes empty, and the run still sleeps 30 seconds before it returns.
\<close>

theorem live_sleeps_after_last_store:
  "load_matrices_live 1 (only_settled ''a'' []) [''a''] []
     = (\<lparr>fileset = [], processed_infiles = [''a''], acc = [], rounds = 1,
         log = [Opened 0 ''a'', Loaded 0 ''a'', Sleep 30]\<rparr>, Returned [])"
  by (simp add: load_matrices_live_def init_live_def only_settled_def)

text \<open>
  C8 as amended. \<open>load_matrices_live\<close> returns only with the pending set empty and
  keeps polling only while it is not; it sleeps 30 seconds at the end of every round
  it completes, whatever is left pending, so that a run that returns after at least
  one round ends with a sleep.
\<close>

theorem live_sleeps_every_round:
  assumes "load_matrices_live fuel w infiles contigs = (st, out)"
  shows "(\<forall>c. out = Returned c \<longrightarrow> fileset st = [] \<and> c = acc st) \<and>
         (out = Polling \<longrightarrow> fileset st \<noteq> []) \<and>
         sleeps (log st) = replicate (rounds st) 30 \<and>
         (\<forall>c. out = Returned c \<and> infiles \<noteq> [] \<longrightarrow> log st \<noteq> [] \<and> last (log st) = Sleep 30)"
proof -
  let ?i = "init_live infiles contigs"
  have run: "live_loop add_contents_to_contigs w fuel ?i = (st, out)"
    using assms by (simp add: load_matrices_live_def)
  have s: "sleeps (log st) = replicate (rounds st) 30"
    by (rule live_loop_sleeps [OF run]) (simp add: init_live_def)
  note ex = live_loop_exit [OF run]
  have "log st \<noteq> [] \<and> last (log st) = Sleep 30" if "out = Returned c" and "infiles \<noteq> []" for c
  proof -
    have "fileset ?i \<noteq> []" using that by (simp add: init_live_def)
    then show ?thesis using live_loop_last_sleep(2) run that(1) by blast
  qed
  then show ?thesis using s ex by blast
qed

text \<open>
  C8 as amended, at the run over one settled shelf.
\<close>

theorem live_sleeps_every_round_witness:
  "load_matrices_live 2 (only_settled ''a'' []) [''a''] []
     = (\<lparr>fileset = [], processed_infiles = [''a''], acc = [], rounds = 1,
         log = [Opened 0 ''a'', Loaded 0 ''a'', Sleep 30]\<rparr>, Returned []) \<and>
   sleeps [Opened 0 ''a'', Loaded 0 ''a'', Sleep 30] = replicate 1 30 \<and>
   last [Opened 0 ''a'', Loaded 0 ''a'', Sleep 30] = Sleep 30"
proof -
  have h: "load_matrices_live 2 (only_settled ''a'' []) [''a''] []
     = (\<lparr>fileset = [], processed_infiles = [''a''], acc = [], rounds = 1,
         log = [Opened 0 ''a'', Loaded 0 ''a'', Sleep 30]\<rparr>, Returned [])"
    by (simp add: load_matrices_live_def init_live_def only_settled_def numeral_2_eq_2)
  from live_sleeps_every_round [OF h] show ?thesis using h by simp
qed

text \<open>
  A store whose matrix for a region has an entry does not merge into an accumulator
  that holds \<open>None\<close> for the region.
\<close>

lemma add_to_none_fails:
  assumes "map_of contigs r = Some None" and "map_of dat r = Some obj" and "\<not> no_entry obj"
  shows "\<exists>e. add_contents_to_contigs dat contigs = Inl e"
  using assms
proof (induction dat arbitrary: contigs)
  case Nil
  then show ?case by simp
next
  case (Cons p dat)
  obtain k x where p: "p = (k, x)" by (cases p)
  have rin: "r \<in> set (keys contigs)" using Cons.prems(1) by (simp add: in_keys_map_of)
  show ?case
  proof (cases "snd (convert_matrix x)")
    case (Inl e)
    then show ?thesis by (simp add: p)
  next
    case (Inr m)
    show ?thesis
    proof (cases "k = r")
      case True
      then have "x = obj" using Cons.prems(2) by (simp add: p)
      then have "\<not> (nrows m = 0 \<or> ncols m = 0)"
        using Cons.prems(3) Inr by (simp add: no_entry_def is_matrix_def the_dense_def)
      then show ?thesis using Inr rin Cons.prems(1) True by (simp add: p)
    next
      case False
      then have rest: "map_of dat r = Some obj" using Cons.prems(2) by (simp add: p)
      have keep: "map_of (AList.update k v contigs) r = Some None" for v
        using False Cons.prems(1) by (simp add: map_of_update)
      show ?thesis
      proof (cases "k \<in> set (keys contigs)")
        case False
        then show ?thesis using Inr Cons.IH [OF keep rest Cons.prems(3)] by (simp add: p)
      next
        case True
        then obtain old where old: "map_of contigs k = Some old"
          by (auto simp: in_keys_map_of)
        show ?thesis
        proof (cases "iadd old m")
          case (Inl e)
          then show ?thesis using Inr True old by (simp add: p)
        next
          case (Inr s)
          then show ?thesis
            using \<open>snd (convert_matrix x) = Inr m\<close> True old Cons.IH [OF keep rest Cons.prems(3)]
            by (simp add: p)
        qed
      qed
    qed
  qed
qed

lemma merge_if_present_none:
  assumes "merge_if_present r dat [(r, None)] = Inr c"
    and "\<forall>x. map_of dat r = Some x \<longrightarrow> \<not> no_entry x"
  shows "r \<notin> set (keys dat) \<and> c = [(r, None)]"
proof -
  have "r \<notin> set (keys dat)"
  proof
    assume rin: "r \<in> set (keys dat)"
    then obtain x where x: "map_of dat r = Some x" by (auto simp: in_keys_map_of)
    then have "\<not> no_entry x" using assms(2) by blast
    moreover have "map_of [(r, None :: ndarray option)] r = Some None" by simp
    ultimately have "\<exists>e. add_contents_to_contigs dat [(r, None)] = Inl e"
      using add_to_none_fails x by blast
    then show False using assms(1) rin by (auto simp: merge_if_present_def)
  qed
  then show ?thesis using assms(1) by (simp add: merge_if_present_def)
qed

lemma poll_files_unseen:
  assumes "poll_files (merge_if_present r) w n files st = (None, st')" and "unseen w r st"
    and "\<forall>k q d x. opens (w k q) = Inr d \<and> map_of d r = Some x \<longrightarrow> \<not> no_entry x"
  shows "unseen w r st'"
  using assms(1,2)
proof (induction files arbitrary: st)
  case Nil
  then show ?case by simp
next
  case (Cons infile rest)
  show ?case
  proof (cases "isfile (w n infile) \<and> 300 < age (w n infile)")
    case False
    then have "poll_files (merge_if_present r) w n rest st = (None, st')"
      using Cons.prems(1) by auto
    then show ?thesis using Cons.IH Cons.prems(2) by blast
  next
    case True
    show ?thesis
    proof (cases "opens (w n infile)")
      case (Inl err)
      let ?s = "st\<lparr>log := log st @ [Opened n infile, OpenFailed n infile]\<rparr>"
      have dbm: "is_dbm_error err" using Cons.prems(1) True Inl by (auto split: if_splits)
      then have "poll_files (merge_if_present r) w n rest ?s = (None, st')"
        using Cons.prems(1) True Inl by simp
      moreover have "unseen w r ?s" using Cons.prems(2) Inl by (auto simp: unseen_def)
      ultimately show ?thesis using Cons.IH by blast
    next
      case (Inr dat)
      obtain c where m: "merge_if_present r dat (acc st) = Inr c"
        using Cons.prems(1) True Inr by (cases "merge_if_present r dat (acc st)") auto
      have a: "acc st = [(r, None)]" using Cons.prems(2) by (simp add: unseen_def)
      have "\<forall>x. map_of dat r = Some x \<longrightarrow> \<not> no_entry x" using assms(3) Inr by blast
      then have c: "r \<notin> set (keys dat)" "c = [(r, None)]"
        using merge_if_present_none m a by auto
      let ?s = "st\<lparr>acc := c, processed_infiles := List.insert infile (processed_infiles st),
                    log := log st @ [Opened n infile, Loaded n infile]\<rparr>"
      have "poll_files (merge_if_present r) w n rest ?s = (None, st')"
        using Cons.prems(1) True Inr m by simp
      moreover have "unseen w r ?s" using Cons.prems(2) Inr c by (auto simp: unseen_def)
      ultimately show ?thesis using Cons.IH by blast
    qed
  qed
qed

lemma live_loop_unseen:
  assumes "live_loop (merge_if_present r) w fuel st = (st', out)" and "unseen w r st"
    and "\<forall>k q d x. opens (w k q) = Inr d \<and> map_of d r = Some x \<longrightarrow> \<not> no_entry x"
  shows "(\<exists>e. out = Raised e) \<or> unseen w r st'"
  using assms(1,2)
proof (induction fuel arbitrary: st)
  case 0
  then show ?case by (auto split: if_splits)
next
  case (Suc fuel)
  show ?case
  proof (cases "fileset st = []")
    case True
    then show ?thesis using Suc.prems by auto
  next
    case False
    obtain x s where run: "poll_files (merge_if_present r) w (rounds st) (fileset st) st = (x, s)"
      by (cases "poll_files (merge_if_present r) w (rounds st) (fileset st) st")
    show ?thesis
    proof (cases x)
      case (Some e)
      then show ?thesis using Suc.prems(1) False run by auto
    next
      case None
      let ?s = "s\<lparr>fileset := filter (\<lambda>p. p \<notin> set (processed_infiles s)) (fileset s),
                   rounds := Suc (rounds s), log := log s @ [Sleep 30]\<rparr>"
      have "unseen w r s" using poll_files_unseen run None Suc.prems(2) assms(3) by blast
      then have "unseen w r ?s" by (auto simp: unseen_def)
      moreover have "live_loop (merge_if_present r) w fuel ?s = (st', out)"
        using Suc.prems(1) False run None by simp
      ultimately show ?thesis using Suc.IH by blast
    qed
  qed
qed

text \<open>
  C10 as stated fails: for a store whose matrix for the region has no entry, the
  addition to \<open>None\<close> adds nothing, raises nothing and installs the object array
  without entries; so does the per-region live loader, which returns.
\<close>

theorem none_sentinel_takes_empty_matrix:
  "map_of [(''chr1'', None :: ndarray option)] ''chr1'' = Some None \<and>
   ''chr1'' \<in> set (keys [(''chr1'', NDArray \<lparr>nrows = 2, ncols = 0, dtype = UInt16, cells = [[], []]\<rparr>)]) \<and>
   add_contents_to_contigs
       [(''chr1'', NDArray \<lparr>nrows = 2, ncols = 0, dtype = UInt16, cells = [[], []]\<rparr>)]
       [(''chr1'', None)]
     = Inr [(''chr1'', Some \<lparr>nrows = 2, ncols = 0, dtype = Object, cells = [[], []]\<rparr>)] \<and>
   snd (load_matrices_per_contig_live 1
          (only_settled ''s''
             [(''chr1'', NDArray \<lparr>nrows = 2, ncols = 0, dtype = UInt16, cells = [[], []]\<rparr>)])
          [''s''] [(''chr1'', None)])
     = Returned [(''chr1'', Some \<lparr>nrows = 2, ncols = 0, dtype = Object, cells = [[], []]\<rparr>)]"
  by (simp add: keys_def convert_matrix_def load_matrices_per_contig_live_def init_live_def
      only_settled_def merge_if_present_def)

text \<open>
  C10 as amended. For a store whose matrix for region \<open>r\<close> has at least one entry (or
  is no matrix): merged into an accumulator that maps \<open>r\<close> to \<open>None\<close>,
  \<open>add_contents_to_contigs\<close> raises instead of installing the matrix, and raises
  TypeError when the region's matrix is the entry reached first; and a run of
  \<open>load_matrices_per_contig_live\<close> started with \<open>{r: None}\<close>, over stores none of
  which holds a matrix without entries for \<open>r\<close>, that has opened such a store has
  raised.
\<close>

theorem none_sentinel_fails:
  assumes "map_of dat r = Some obj" and "\<not> no_entry obj"
  shows "(map_of contigs r = Some None \<longrightarrow> (\<exists>e. add_contents_to_contigs dat contigs = Inl e)) \<and>
         (map_of contigs r = Some None \<and> is_matrix obj \<longrightarrow>
            add_contents_to_contigs ((r, obj) # rest) contigs = Inl TypeError) \<and>
         (load_matrices_per_contig_live fuel w infiles [(r, None)] = (st, out) \<and>
          (\<forall>k q d x. opens (w k q) = Inr d \<and> map_of d r = Some x \<longrightarrow> \<not> no_entry x) \<and>
          Opened n p \<in> set (log st) \<and> opens (w n p) = Inr dat \<longrightarrow> (\<exists>e. out = Raised e))"
proof (intro conjI impI)
  assume "map_of contigs r = Some None"
  then show "\<exists>e. add_contents_to_contigs dat contigs = Inl e"
    using add_to_none_fails assms by blast
next
  assume a: "map_of contigs r = Some None \<and> is_matrix obj"
  then have "r \<in> set (keys contigs)" by (simp add: in_keys_map_of)
  moreover have "\<not> (nrows (the_dense obj) = 0 \<or> ncols (the_dense obj) = 0)"
    using a assms(2) by (simp add: no_entry_def)
  ultimately show "add_contents_to_contigs ((r, obj) # rest) contigs = Inl TypeError"
    using a by (simp add: is_matrix_conv)
next
  assume a: "load_matrices_per_contig_live fuel w infiles [(r, None)] = (st, out) \<and>
          (\<forall>k q d x. opens (w k q) = Inr d \<and> map_of d r = Some x \<longrightarrow> \<not> no_entry x) \<and>
          Opened n p \<in> set (log st) \<and> opens (w n p) = Inr dat"
  then have run: "live_loop (merge_if_present r) w fuel (init_live infiles [(r, None)]) = (st, out)"
    by (simp add: load_matrices_per_contig_live_def keys_def)
  have u: "unseen w r (init_live infiles [(r, None)])" by (simp add: unseen_def init_live_def)
  have H: "\<forall>k q d x. opens (w k q) = Inr d \<and> map_of d r = Some x \<longrightarrow> \<not> no_entry x"
    using a by blast
  have rin: "r \<in> set (keys dat)" using assms(1) by (simp add: in_keys_map_of)
  from live_loop_unseen [OF run u H] show "\<exists>e. out = Raised e"
    using a rin by (auto simp: unseen_def)
qed

text \<open>
  C10 as amended, at a settled shelf holding chr1 with four entries and the
  accumulator \<open>{chr1: None}\<close>.
\<close>

theorem none_sentinel_fails_witness:
  "map_of [(''chr1'', NDArray counts22)] ''chr1'' = Some (NDArray counts22) \<and>
   \<not> no_entry (NDArray counts22) \<and>
   map_of [(''chr1'', None :: ndarray option)] ''chr1'' = Some None \<and>
   is_matrix (NDArray counts22) \<and>
   load_matrices_per_contig_live 1 (only_settled ''s'' [(''chr1'', NDArray counts22)]) [''s'']
       [(''chr1'', None)]
     = (\<lparr>fileset = [''s''], processed_infiles = [], acc = [(''chr1'', None)], rounds = 0,
         log = [Opened 0 ''s'']\<rparr>, Raised TypeError) \<and>
   add_contents_to_contigs [(''chr1'', NDArray counts22)] [(''chr1'', None)] = Inl TypeError"
proof -
  let ?dat = "[(''chr1'', NDArray counts22)]"
  let ?w = "only_settled ''s'' ?dat"
  let ?st = "\<lparr>fileset = [''s''], processed_infiles = [], acc = [(''chr1'', None)], rounds = 0,
         log = [Opened 0 ''s'']\<rparr>"
  have h1: "map_of ?dat ''chr1'' = Some (NDArray counts22)" by simp
  have h2: "\<not> no_entry (NDArray counts22)"
    by (simp add: no_entry_def the_dense_def convert_matrix_def counts22_def)
  have h3: "map_of [(''chr1'', None :: ndarray option)] ''chr1'' = Some None" by simp
  have h4: "is_matrix (NDArray counts22)" by (simp add: is_matrix_def convert_matrix_def)
  have h5: "load_matrices_per_contig_live 1 ?w [''s''] [(''chr1'', None)] = (?st, Raised TypeError)"
    by (simp add: load_matrices_per_contig_live_def init_live_def only_settled_def
        merge_if_present_def keys_def convert_matrix_def counts22_def)
  have h6: "\<forall>k q d x. opens (?w k q) = Inr d \<and> map_of d ''chr1'' = Some x \<longrightarrow> \<not> no_entry x"
    using h2 by (auto simp: only_settled_def split: if_splits)
  have h7: "Opened 0 ''s'' \<in> set (log ?st)" by simp
  have h8: "opens (?w 0 ''s'') = Inr ?dat" by (simp add: only_settled_def)
  note inst = none_sentinel_fails [OF h1 h2, of "[(''chr1'', None)]" "[]" 1 ?w "[''s'']" ?st
      "Raised TypeError" 0 "''s''"]
  have "add_contents_to_contigs ?dat [(''chr1'', None)] = Inl TypeError"
    using inst h3 h4 by blast
  moreover have "\<exists>e. (Raised TypeError :: outcome) = Raised e"
    using inst h5 h6 h7 h8 by blast
  ultimately show ?thesis using h1 h2 h3 h4 h5 by blast
qed

text \<open>
  C4. The spec has the per-region live loader merge only the named region.
  The source hands the whole store to \<open>add_contents_to_contigs\<close> once the region is
  present: at a store holding chr1 and chr2 and the accumulator \<open>{chr1: A}\<close>, the
  run returns an accumulator with the new key chr2.
\<close>

theorem per_contig_live_merges_whole_store:
  "load_matrices_per_contig_live 1
      (only_settled ''s'' [(''chr1'', NDArray counts22), (''chr2'', NDArray counts22)])
      [''s''] [(''chr1'', Some (ndarray_T counts22))]
   = (\<lparr>fileset = [], processed_infiles = [''s''],
       acc = [(''chr1'', Some \<lparr>nrows = 2, ncols = 2, dtype = UInt16, cells = [[2, 5], [5, 8]]\<rparr>),
              (''chr2'', Some counts22)],
       rounds = 1, log = [Opened 0 ''s'', Loaded 0 ''s'', Sleep 30]\<rparr>,
      Returned [(''chr1'', Some \<lparr>nrows = 2, ncols = 2, dtype = UInt16, cells = [[2, 5], [5, 8]]\<rparr>),
                (''chr2'', Some counts22)])"
  by (simp add: load_matrices_per_contig_live_def init_live_def only_settled_def
      merge_if_present_def keys_def convert_matrix_def iadd_ndarray_def counts22_def ndarray_T_def
      can_iadd_def wrap_def
      upt_rec)

section \<open>Properties of the container writers\<close>


lemma map_of_appended:
  "k \<notin> set (keys al) \<Longrightarrow> map_of (al @ [(k, x)]) k = Some x"
  by (induction al) (auto simp: keys_def)














text \<open>
  Whatever the input array holds, the array that \<open>write_wssd_to_h5\<close> leaves under
  its name is the new array of that shape, filled with 0.
\<close>

lemma write_wssd_allocates_zeros:
  assumes "group wssd = Some ((name, matrix) # others)" and "lookup_array fout name = None"
    and "\<not> has_zero (dims matrix)"
  shows "\<exists>f'. write_wssd_to_h5 wssd fout = Inr f' \<and>
              lookup_array f' name = Some (zeros (dims matrix)) \<and> \<not> dirty f'"
proof (cases "group fout")
  case None
  then show ?thesis using assms(1,3)
    by (simp add: write_wssd_to_h5_def ensure_group_def create_carray_def keys_def
        lookup_array_def flush_def)
next
  case (Some nodes)
  then have "name \<notin> set (keys nodes)" using assms(2)
    by (simp add: lookup_array_def in_keys_map_of)
  then show ?thesis using assms(1,3) Some
    by (simp add: write_wssd_to_h5_def ensure_group_def create_carray_def
        lookup_array_def flush_def map_of_appended del: map_of_append)
qed

text \<open>
  C2. The spec has the container-merge path copy the input array. The
  source allocates the array of the same name and shape and then only rebinds its
  local name: at an input array \<open>[[[5, 7]]]\<close> the output holds \<open>[[[0, 0]]]\<close>.
\<close>

theorem write_wssd_copies_nothing:
  "write_wssd_to_h5 finished_wssd empty_h5
     = Inr \<lparr>group = Some [(''chr1'', \<lparr>dims = (1, 1, 2), items = [[[0, 0]]]\<rparr>)], dirty = False\<rparr> \<and>
   lookup_array finished_wssd ''chr1'' = Some \<lparr>dims = (1, 1, 2), items = [[[5, 7]]]\<rparr>"
  by (simp add: write_wssd_to_h5_def ensure_group_def create_carray_def keys_def zeros_def
      flush_def numeral_2_eq_2 finished_wssd_def empty_h5_def lookup_array_def has_zero_def)

end
